theory Spec2Isabelle
  imports Main
begin

section \<open>Data model\<close>

text \<open>
  The program is \<^verbatim>\<open>train_parallel_labeled_corpora.py\<close>. A Python \<^verbatim>\<open>str\<close> is a
  \<^typ>\<open>string\<close>, one \<^typ>\<open>char\<close> per character of the text (the model covers text whose
  code points are below 256). A text file is the \<^verbatim>\<open>str\<close> of its decoded content, after
  Python's newline translation. A \<^verbatim>\<open>dict\<close> is a map, a list of ids is an
  \<^typ>\<open>int list\<close>, and a generator over finite input is the list of the items it yields.
\<close>

datatype error = ValueError | IndexError

type_synonym vocab = "string \<rightharpoonup> int"

definition newline :: char where
  "newline = CHR 0x0A"

text \<open>\<^verbatim>\<open>line.replace("\n", "")\<close>: every newline character is removed.\<close>

definition replace_newline :: "string \<Rightarrow> string" where
  "replace_newline line = filter (\<lambda>c. c \<noteq> newline) line"

text \<open>
  \<^verbatim>\<open>for line in fin\<close>: the content is cut after every newline, each line keeps its
  terminator, and a last line without terminator is yielded when it is not empty.
\<close>

fun file_lines_from :: "string \<Rightarrow> string \<Rightarrow> string list" where
  "file_lines_from cur [] = (if cur = [] then [] else [cur])"
| "file_lines_from cur (c # cs) =
     (if c = newline then (cur @ [c]) # file_lines_from [] cs
      else file_lines_from (cur @ [c]) cs)"

definition file_lines :: "string \<Rightarrow> string list" where
  "file_lines content = file_lines_from [] content"

text \<open>\<^verbatim>\<open>str.isspace\<close> on one character, for code points below 256.\<close>

definition isspace :: "char \<Rightarrow> bool" where
  "isspace c = (of_char c \<in> {9, 10, 11, 12, 13, 28, 29, 30, 31, 32, 133, 160 :: nat})"

text \<open>
  \<^verbatim>\<open>line.split()\<close> without argument: the fields are the maximal runs of characters that
  are not whitespace; no field is empty.
\<close>

fun split_from :: "string \<Rightarrow> string \<Rightarrow> string list" where
  "split_from cur [] = (if cur = [] then [] else [cur])"
| "split_from cur (c # cs) =
     (if isspace c then (if cur = [] then split_from [] cs else cur # split_from [] cs)
      else split_from (cur @ [c]) cs)"

definition str_split :: "string \<Rightarrow> string list" where
  "str_split line = split_from [] line"

text \<open>Iterating over a \<^verbatim>\<open>str\<close> yields its characters, each as a \<^verbatim>\<open>str\<close> of length one.\<close>

definition str_items :: "string \<Rightarrow> string list" where
  "str_items line = map (\<lambda>c. [c]) line"

text \<open>\<^verbatim>\<open>d.get(k, default)\<close>.\<close>

definition dict_get :: "('k \<rightharpoonup> 'v) \<Rightarrow> 'k \<Rightarrow> 'v \<Rightarrow> 'v" where
  "dict_get d k dflt = (case d k of Some v \<Rightarrow> v | None \<Rightarrow> dflt)"

section \<open>Line encoder and file reader\<close>

text \<open>
  \<^verbatim>\<open>vocab_encoder_wrapper(vocab, unk_id=2)\<close> returns \<^verbatim>\<open>line_ecoder_fn\<close>; the third
  argument is the sequence of items that iterating \<^verbatim>\<open>line\<close> yields.
\<close>

definition unk_id_default :: int where
  "unk_id_default = 2"

definition vocab_encoder_wrapper :: "('t \<rightharpoonup> int) \<Rightarrow> int \<Rightarrow> 't list \<Rightarrow> int list" where
  "vocab_encoder_wrapper vocab unk_id line = map (\<lambda>t. dict_get vocab t unk_id) line"

text \<open>\<^verbatim>\<open>open_file_wrapper(proc_fn)\<close> returns \<^verbatim>\<open>open_file_fn\<close>, here applied to a file's content.\<close>

definition open_file_wrapper :: "(string \<Rightarrow> 'a) \<Rightarrow> string \<Rightarrow> 'a list" where
  "open_file_wrapper proc_fn content =
     map (\<lambda>line. proc_fn (replace_newline line)) (file_lines content)"

text \<open>
  The processing function the pipeline builds,
  \<^verbatim>\<open>vocab_encoder_wrapper(vocab)\<close> with the default unknown id, called on a \<^verbatim>\<open>str\<close>.
\<close>

definition line_ecoder_fn :: "vocab \<Rightarrow> string \<Rightarrow> int list" where
  "line_ecoder_fn vocab line = vocab_encoder_wrapper vocab unk_id_default (str_items line)"

section \<open>Vocabulary loader\<close>

text \<open>
  The reading loop of \<^verbatim>\<open>load_vocab\<close>: \<^verbatim>\<open>token, freq = line.split()\<close> raises
  \<^verbatim>\<open>ValueError\<close> unless the line has exactly two fields.
\<close>

fun read_tokens :: "string list \<Rightarrow> string list \<Rightarrow> error + string list" where
  "read_tokens tokens [] = Inr tokens"
| "read_tokens tokens (line # rest) =
     (case str_split (replace_newline line) of
        [token, freq] \<Rightarrow> read_tokens (tokens @ [token]) rest
      | _ \<Rightarrow> Inl ValueError)"

text \<open>The two dict comprehensions over \<^verbatim>\<open>enumerate(tokens)\<close>; a later entry replaces an earlier one with the same key.\<close>

definition token2id_of :: "string list \<Rightarrow> int \<Rightarrow> (string \<rightharpoonup> int)" where
  "token2id_of tokens ids_bias =
     fold (\<lambda>(i, t) d. d(t \<mapsto> int i + ids_bias)) (enumerate 0 tokens) Map.empty"

definition id2token_of :: "string list \<Rightarrow> int \<Rightarrow> (int \<rightharpoonup> string)" where
  "id2token_of tokens ids_bias =
     fold (\<lambda>(i, t) d. d(int i + ids_bias \<mapsto> t)) (enumerate 0 tokens) Map.empty"

definition load_vocab :: "string \<Rightarrow> int \<Rightarrow> error + ((string \<rightharpoonup> int) \<times> (int \<rightharpoonup> string))" where
  "load_vocab content ids_bias =
     (case read_tokens [] (file_lines content) of
        Inl e \<Rightarrow> Inl e
      | Inr tokens \<Rightarrow> Inr (token2id_of tokens ids_bias, id2token_of tokens ids_bias))"

text \<open>\<^verbatim>\<open>label_vocab = {"0": 2, "1": 3}\<close> of \<^verbatim>\<open>main\<close>.\<close>

definition main_label_vocab :: vocab where
  "main_label_vocab = [''0'' \<mapsto> 2, ''1'' \<mapsto> 3]"

section \<open>Collaborators that are not in the source file\<close>

text \<open>A two-dimensional array: its shape and its cells, \<open>shape0\<close> rows of \<open>shape1\<close> entries.\<close>

record ndarray2 =
  shape0 :: nat
  shape1 :: nat
  cells :: "int list list"

text \<open>
  Modelled from the spec: \<^verbatim>\<open>time_major_batch\<close> of \<^verbatim>\<open>seq2seq.batch_utils\<close> is missing
  from the sources. The spec (Batch Assembler): the result is \<open>(ids_2d, lengths_1d)\<close>,
  \<open>ids_2d\<close> of shape \<open>[max_length_in_chunk, chunk_size]\<close>, \<open>lengths_1d\<close> holding each
  sequence's true length, positions beyond a sequence's true length filled with a constant.
  The constant is the parameter \<open>pad\<close>. The spec leaves the empty chunk open; here it gives
  the array of shape \<open>[0, 0]\<close>.
\<close>

definition time_major_batch :: "int \<Rightarrow> int list list \<Rightarrow> ndarray2 \<times> nat list" where
  "time_major_batch pad inputs =
     (let lengths = map length inputs;
          max_length = fold max lengths 0
      in (\<lparr>shape0 = max_length, shape1 = length inputs,
           cells = map (\<lambda>t. map (\<lambda>seq. if t < length seq then seq ! t else pad) inputs)
                       [0..<max_length]\<rparr>,
          lengths))"

text \<open>
  Modelled from the spec: \<^verbatim>\<open>files_data_generator\<close> of \<^verbatim>\<open>rstools.utils.batch_utils\<close> is
  missing from the sources. The spec (File-Backed Token-Sequence Generator): it opens each
  file in order and yields what the opening function yields, line by line; the batch size
  is not used.
\<close>

definition files_data_generator :: "string list \<Rightarrow> (string \<Rightarrow> 'a list) \<Rightarrow> int \<Rightarrow> 'a list" where
  "files_data_generator files open_fn batch_size = concat (map open_fn files)"

text \<open>
  Modelled from the spec: \<^verbatim>\<open>merge_generators\<close> of \<^verbatim>\<open>rstools.utils.batch_utils\<close> is
  missing from the sources. The spec (Generator Merger): from N generators it yields
  N-tuples, the i-th item of each, and stops when the shortest generator is exhausted.
  No generator at all yields nothing.
\<close>

function merge_generators :: "'a list list \<Rightarrow> 'a list list" where
  "merge_generators gens =
     (if gens = [] \<or> [] \<in> set gens then []
      else map hd gens # merge_generators (map tl gens))"
  by pat_completeness auto
termination
proof (relation "measure (\<lambda>gens. length (hd gens))")
  show "wf (measure (\<lambda>gens::'a list list. length (hd gens)))"
    by simp
next
  fix gens :: "'a list list"
  assume "\<not> (gens = [] \<or> [] \<in> set gens)"
  then obtain g gs where "gens = g # gs" and "g \<noteq> []"
    by (cases gens) auto
  then show "(map tl gens, gens) \<in> measure (\<lambda>gens. length (hd gens))"
    by simp
qed

declare merge_generators.simps [simp del]

section \<open>Labeled-data pipeline\<close>

type_synonym batch = "ndarray2 \<times> nat list \<times> ndarray2 \<times> nat list"

text \<open>
  The loop of \<^verbatim>\<open>labeled_data_generator\<close> over the rows of the merged generator, with the
  two accumulators as arguments. The result is the list of the batches yielded and how the
  generator ended: \<open>None\<close> when the rows were exhausted, the exception otherwise. A row
  with fewer than three components raises \<^verbatim>\<open>IndexError\<close> at \<^verbatim>\<open>batch_row[1]\<close> or
  \<^verbatim>\<open>batch_row[2]\<close>.
\<close>

fun labeled_loop ::
  "int \<Rightarrow> int \<Rightarrow> int \<Rightarrow> int list list \<Rightarrow> int list list \<Rightarrow> int list list list
   \<Rightarrow> batch list \<times> error option" where
  "labeled_loop pad join_id batch_size text_batch label_batch [] = ([], None)"
| "labeled_loop pad join_id batch_size text_batch label_batch (batch_row # rows) =
     (if length batch_row < 3 then ([], Some IndexError)
      else
        let text = batch_row ! 0 @ [join_id] @ batch_row ! 1;
            label = batch_row ! 2;
            text_batch = text_batch @ [text];
            label_batch = label_batch @ [label]
        in if int (length text_batch) \<ge> batch_size then
             (case (time_major_batch pad text_batch, time_major_batch pad label_batch) of
                ((text, text_len), (label, label_len)) \<Rightarrow>
                  (case labeled_loop pad join_id batch_size [] [] rows of
                     (batches, e) \<Rightarrow> ((text, text_len, label, label_len) # batches, e)))
           else labeled_loop pad join_id batch_size text_batch label_batch rows)"

definition join_id_default :: int where
  "join_id_default = 3"

text \<open>
  The list \<^verbatim>\<open>files_its\<close> of \<^verbatim>\<open>labeled_data_generator\<close> and the merged generator over
  it. The three files are given by their contents: the paths built from \<^verbatim>\<open>data_dir\<close>
  and \<^verbatim>\<open>prefix\<close> are taken to name existing files.
\<close>

definition merged_rows :: "string \<Rightarrow> string \<Rightarrow> string \<Rightarrow> vocab \<Rightarrow> vocab \<Rightarrow> int \<Rightarrow> int list list list" where
  "merged_rows source_file target_file label_file text_vocab label_vocab batch_size =
     (let files_its =
            [files_data_generator [source_file]
               (open_file_wrapper (line_ecoder_fn text_vocab)) batch_size,
             files_data_generator [target_file]
               (open_file_wrapper (line_ecoder_fn text_vocab)) batch_size,
             files_data_generator [label_file]
               (open_file_wrapper (line_ecoder_fn label_vocab)) batch_size]
      in merge_generators files_its)"

text \<open>
  \<^verbatim>\<open>labeled_data_generator\<close>: the loop, started with empty accumulators, over the merged
  generator; \<open>pad\<close> is the constant of the batch assembler.
\<close>

definition labeled_data_generator ::
  "int \<Rightarrow> string \<Rightarrow> string \<Rightarrow> string \<Rightarrow> vocab \<Rightarrow> vocab \<Rightarrow> int \<Rightarrow> int
   \<Rightarrow> batch list \<times> error option" where
  "labeled_data_generator pad source_file target_file label_file text_vocab label_vocab
       join_id batch_size =
     labeled_loop pad join_id batch_size [] []
       (merged_rows source_file target_file label_file text_vocab label_vocab batch_size)"

text \<open>
  The batch that the loop yields from the rows accumulated since the last batch: the joined
  texts and the labels of these rows, each through the batch assembler.
\<close>

definition chunk_batch :: "int \<Rightarrow> int \<Rightarrow> int list list list \<Rightarrow> batch" where
  "chunk_batch pad join_id chunk =
     (case (time_major_batch pad (map (\<lambda>batch_row. batch_row ! 0 @ [join_id] @ batch_row ! 1) chunk),
            time_major_batch pad (map (\<lambda>batch_row. batch_row ! 2) chunk)) of
        ((text, text_len), (label, label_len)) \<Rightarrow> (text, text_len, label, label_len))"

section \<open>The line encoder\<close>

text \<open>
  C5. The line encoder keeps the order and the number of the tokens: the id at position
  \<open>i\<close> is the id the vocabulary assigns to the token at position \<open>i\<close> when the
  vocabulary has that token, and the unknown id otherwise. The default unknown id is 2.
  The encoder is a function of the vocabulary, the unknown id and the line only.
\<close>

theorem line_encoder_ids:
  "length (vocab_encoder_wrapper V u line) = length line \<and>
   (\<forall>i < length line.
      (\<forall>k. V (line ! i) = Some k \<longrightarrow> vocab_encoder_wrapper V u line ! i = k) \<and>
      (V (line ! i) = None \<longrightarrow> vocab_encoder_wrapper V u line ! i = u)) \<and>
   unk_id_default = 2"
  by (simp add: vocab_encoder_wrapper_def dict_get_def unk_id_default_def)

theorem line_encoder_ids_witness:
  "vocab_encoder_wrapper [''the'' \<mapsto> 4, ''cat'' \<mapsto> 5] unk_id_default [''the'', ''dog''] ! 0 = 4 \<and>
   vocab_encoder_wrapper [''the'' \<mapsto> 4, ''cat'' \<mapsto> 5] unk_id_default [''the'', ''dog''] ! 1 = 2"
proof -
  let ?V = "[''the'' \<mapsto> 4, ''cat'' \<mapsto> (5::int)]"
  let ?line = "[''the'', ''dog'']"
  note enc = line_encoder_ids [of ?V unk_id_default ?line]
  have known: "?V (?line ! 0) = Some 4" by simp
  have unknown: "?V (?line ! 1) = None" by simp
  from enc known have "vocab_encoder_wrapper ?V unk_id_default ?line ! 0 = 4"
    by (metis length_Cons zero_less_Suc)
  moreover from enc unknown
  have "vocab_encoder_wrapper ?V unk_id_default ?line ! 1 = unk_id_default"
    by (metis One_nat_def length_Cons lessI list.size(3))
  moreover from enc have "unk_id_default = 2" by blast
  ultimately show ?thesis by simp
qed

text \<open>
  C10. With the label vocabulary of \<^verbatim>\<open>main\<close> and the default unknown id, a label
  character other than "0" and "1" is encoded as 2, the id of the class "0": replacing
  every such character of a label line by "0" does not change the encoded line.
\<close>

theorem label_unknown_is_class_zero:
  "(c \<noteq> CHR ''0'' \<longrightarrow> c \<noteq> CHR ''1'' \<longrightarrow> line_ecoder_fn main_label_vocab [c] = [2]) \<and>
   line_ecoder_fn main_label_vocab ''0'' = [2] \<and>
   line_ecoder_fn main_label_vocab ''1'' = [3] \<and>
   line_ecoder_fn main_label_vocab line =
     line_ecoder_fn main_label_vocab (map (\<lambda>c. if c = CHR ''1'' then c else CHR ''0'') line)"
  by (simp add: line_ecoder_fn_def vocab_encoder_wrapper_def str_items_def dict_get_def
      main_label_vocab_def unk_id_default_def)

theorem label_unknown_is_class_zero_witness:
  "CHR ''x'' \<noteq> CHR ''0'' \<and> CHR ''x'' \<noteq> CHR ''1'' \<and>
   line_ecoder_fn main_label_vocab ''x'' = [2] \<and>
   line_ecoder_fn main_label_vocab ''x'' = line_ecoder_fn main_label_vocab ''0''"
  using label_unknown_is_class_zero [of "CHR ''x''" "[]"] by simp

section \<open>The vocabulary loader\<close>

lemmas text_eval = file_lines_def newline_def str_split_def replace_newline_def isspace_def

lemma token2id_of_snoc:
  "token2id_of (ts @ [t]) B = (token2id_of ts B)(t \<mapsto> int (length ts) + B)"
  by (simp add: token2id_of_def enumerate_append_eq)

lemma id2token_of_snoc:
  "id2token_of (ts @ [t]) B = (id2token_of ts B)(int (length ts) + B \<mapsto> t)"
  by (simp add: id2token_of_def enumerate_append_eq)

lemma token2id_of_Nil: "token2id_of [] B = Map.empty"
  by (simp add: token2id_of_def)

lemma id2token_of_Nil: "id2token_of [] B = Map.empty"
  by (simp add: id2token_of_def)

lemma id2token_of_lookup:
  "id2token_of ts B j = (if B \<le> j \<and> j < B + int (length ts) then Some (ts ! nat (j - B)) else None)"
proof (induction ts rule: rev_induct)
  case Nil
  then show ?case by (simp add: id2token_of_Nil)
next
  case (snoc t ts)
  show ?case
  proof (cases "j = int (length ts) + B")
    case True
    then show ?thesis by (simp add: id2token_of_snoc)
  next
    case False
    then show ?thesis
      by (auto simp add: id2token_of_snoc snoc.IH nth_append nat_less_iff)
  qed
qed

lemma token2id_of_dom: "dom (token2id_of ts B) = set ts"
proof (induction ts rule: rev_induct)
  case Nil
  then show ?case by (simp add: token2id_of_Nil)
next
  case (snoc t ts)
  have "dom (token2id_of (ts @ [t]) B) = insert t (dom (token2id_of ts B))"
    unfolding token2id_of_snoc by simp
  with snoc.IH show ?case by simp
qed

lemma token2id_of_last:
  "k < length ts \<Longrightarrow> \<forall>k'. k < k' \<and> k' < length ts \<longrightarrow> ts ! k' \<noteq> ts ! k \<Longrightarrow>
   token2id_of ts B (ts ! k) = Some (B + int k)"
proof (induction ts rule: rev_induct)
  case Nil
  then show ?case by simp
next
  case (snoc t ts)
  show ?case
  proof (cases "k = length ts")
    case True
    then show ?thesis by (simp add: token2id_of_snoc)
  next
    case False
    with snoc.prems(1) have k: "k < length ts" by simp
    have "(ts @ [t]) ! length ts \<noteq> (ts @ [t]) ! k"
      using snoc.prems(2) k by (metis length_append_singleton lessI)
    then have neq: "t \<noteq> ts ! k" using k by (simp add: nth_append)
    have "\<forall>k'. k < k' \<and> k' < length ts \<longrightarrow> ts ! k' \<noteq> ts ! k"
    proof (intro allI impI)
      fix k' assume h: "k < k' \<and> k' < length ts"
      then have "(ts @ [t]) ! k' \<noteq> (ts @ [t]) ! k"
        using snoc.prems(2) by (metis length_append_singleton less_Suc_eq)
      with h k show "ts ! k' \<noteq> ts ! k" by (simp add: nth_append)
    qed
    with snoc.IH k have "token2id_of ts B (ts ! k) = Some (B + int k)" by blast
    with neq k show ?thesis by (simp add: token2id_of_snoc nth_append)
  qed
qed

lemma token2id_of_range:
  "token2id_of ts B t = Some i \<Longrightarrow> \<exists>k < length ts. ts ! k = t \<and> i = B + int k \<and>
     (\<forall>k'. k < k' \<and> k' < length ts \<longrightarrow> ts ! k' \<noteq> t)"
proof (induction ts rule: rev_induct)
  case Nil
  then show ?case by (simp add: token2id_of_Nil)
next
  case (snoc u ts)
  show ?case
  proof (cases "t = u")
    case True
    with snoc.prems have "i = B + int (length ts)" by (simp add: token2id_of_snoc)
    with True show ?thesis
      by (intro exI [of _ "length ts"]) auto
  next
    case False
    with snoc.prems have "token2id_of ts B t = Some i" by (simp add: token2id_of_snoc)
    with snoc.IH obtain k where k: "k < length ts" "ts ! k = t" "i = B + int k"
      "\<forall>k'. k < k' \<and> k' < length ts \<longrightarrow> ts ! k' \<noteq> t" by blast
    have "\<forall>k'. k < k' \<and> k' < length (ts @ [u]) \<longrightarrow> (ts @ [u]) ! k' \<noteq> t"
      using k(4) False by (auto simp add: nth_append less_Suc_eq)
    with k show ?thesis
      by (intro exI [of _ k]) (simp add: nth_append)
  qed
qed

lemma read_tokens_result:
  "read_tokens acc lines =
     (if \<exists>line \<in> set lines. length (str_split (replace_newline line)) \<noteq> 2 then Inl ValueError
      else Inr (acc @ map (\<lambda>line. hd (str_split (replace_newline line))) lines))"
proof (induction lines arbitrary: acc)
  case Nil
  then show ?case by simp
next
  case (Cons line rest)
  show ?case
  proof (cases "str_split (replace_newline line)")
    case Nil
    then show ?thesis by simp
  next
    case (Cons token fs)
    note outer = Cons
    show ?thesis
    proof (cases fs)
      case Nil
      with outer show ?thesis by simp
    next
      case (Cons freq gs)
      with outer Cons.IH show ?thesis by (cases gs) simp_all
    qed
  qed
qed


text \<open>
  C4. For a vocabulary file that \<^verbatim>\<open>load_vocab\<close> reads without error into K tokens, one
  per line, when the tokens are pairwise distinct: the token-to-id map is defined exactly on
  the tokens, the id-to-token map exactly on the ids from the bias \<open>B\<close> up to \<open>B + K\<close>
  excluded, the token of line \<open>k\<close> has the id \<open>B + k\<close> and back, and each map is the
  inverse of the other.
\<close>

theorem load_vocab_inverse:
  assumes "read_tokens [] (file_lines content) = Inr tokens" and "distinct tokens"
  shows "\<exists>token2id id2token.
     load_vocab content B = Inr (token2id, id2token) \<and>
     length tokens = length (file_lines content) \<and>
     dom token2id = set tokens \<and>
     dom id2token = {B ..< B + int (length tokens)} \<and>
     (\<forall>k < length tokens.
        token2id (tokens ! k) = Some (B + int k) \<and> id2token (B + int k) = Some (tokens ! k)) \<and>
     (\<forall>t i. token2id t = Some i \<longleftrightarrow> id2token i = Some t)"
proof -
  let ?t2i = "token2id_of tokens B" and ?i2t = "id2token_of tokens B"
  have load: "load_vocab content B = Inr (?t2i, ?i2t)"
    using assms(1) by (simp add: load_vocab_def)
  have len: "length tokens = length (file_lines content)"
    using assms(1) by (simp add: read_tokens_result split: if_splits) auto
  have dom_i2t: "dom ?i2t = {B ..< B + int (length tokens)}"
    by (auto simp add: dom_def id2token_of_lookup)
  have fwd: "?t2i (tokens ! k) = Some (B + int k)" if "k < length tokens" for k
  proof -
    have "\<forall>k'. k < k' \<and> k' < length tokens \<longrightarrow> tokens ! k' \<noteq> tokens ! k"
      using assms(2) that by (auto simp add: nth_eq_iff_index_eq)
    with that show ?thesis by (rule token2id_of_last)
  qed
  have bwd: "?i2t (B + int k) = Some (tokens ! k)" if "k < length tokens" for k
    using that by (simp add: id2token_of_lookup)
  have inv: "?t2i t = Some i \<longleftrightarrow> ?i2t i = Some t" for t i
  proof
    assume "?t2i t = Some i"
    then obtain k where "k < length tokens" "tokens ! k = t" "i = B + int k"
      using token2id_of_range by blast
    then show "?i2t i = Some t" using bwd by simp
  next
    assume h: "?i2t i = Some t"
    then have r: "B \<le> i \<and> i < B + int (length tokens)" and t: "t = tokens ! nat (i - B)"
      by (simp_all add: id2token_of_lookup split: if_splits)
    then have "nat (i - B) < length tokens" by linarith
    from fwd [OF this] t r show "?t2i t = Some i" by simp
  qed
  show ?thesis
    using load len token2id_of_dom [of tokens B] dom_i2t fwd bwd inv by blast
qed

text \<open>
  C7. \<^verbatim>\<open>load_vocab\<close> ends with \<^verbatim>\<open>ValueError\<close>, which nothing in it catches, when
  some line of the file does not split into exactly two whitespace-separated fields, and
  returns its two maps when every line does.
\<close>

theorem load_vocab_parse_error:
  "((\<exists>line \<in> set (file_lines content). length (str_split (replace_newline line)) \<noteq> 2)
      \<longrightarrow> load_vocab content B = Inl ValueError) \<and>
   ((\<forall>line \<in> set (file_lines content). length (str_split (replace_newline line)) = 2)
      \<longrightarrow> (\<exists>vocabs. load_vocab content B = Inr vocabs))"
  by (auto simp add: load_vocab_def read_tokens_result)

text \<open>
  C8, as stated: a duplicate token overwrites the earlier id in the id-to-token map. On the
  file with the lines \<^verbatim>\<open>a 1\<close> and \<^verbatim>\<open>a 2\<close> and the bias 0 the id-to-token map keeps
  the earlier id 0 beside the id 1; it is the token-to-id map that loses the id 0.
\<close>

theorem load_vocab_duplicate_counterexample:
  "\<not> isl (load_vocab ''a 1\<newline>a 2\<newline>'' 0) \<and>
   snd (projr (load_vocab ''a 1\<newline>a 2\<newline>'' 0)) 0 = Some ''a'' \<and>
   snd (projr (load_vocab ''a 1\<newline>a 2\<newline>'' 0)) 1 = Some ''a'' \<and>
   fst (projr (load_vocab ''a 1\<newline>a 2\<newline>'' 0)) ''a'' = Some 1"
  by (simp add: load_vocab_def text_eval token2id_of_def id2token_of_def enumerate_eq_zip
      upt_rec)

text \<open>
  C8, amended. When the token of line \<open>i\<close> occurs again on a later line \<open>j\<close>,
  \<^verbatim>\<open>load_vocab\<close> still returns its two maps (there is no deduplication check). In the
  token-to-id map the token no longer has the id \<open>B + i\<close>: it has the id of its last line.
  The id-to-token map keeps every id, \<open>B + i\<close> and \<open>B + j\<close> both giving the token.
\<close>

theorem load_vocab_duplicate_tokens:
  assumes "read_tokens [] (file_lines content) = Inr tokens"
    and "i < j" and "j < length tokens" and "tokens ! i = tokens ! j"
  shows "\<exists>token2id id2token.
     load_vocab content B = Inr (token2id, id2token) \<and>
     token2id (tokens ! i) \<noteq> Some (B + int i) \<and>
     (\<exists>k. i < k \<and> k < length tokens \<and> tokens ! k = tokens ! i \<and>
          (\<forall>k'. k < k' \<and> k' < length tokens \<longrightarrow> tokens ! k' \<noteq> tokens ! i) \<and>
          token2id (tokens ! i) = Some (B + int k)) \<and>
     id2token (B + int i) = Some (tokens ! i) \<and>
     id2token (B + int j) = Some (tokens ! j)"
proof -
  let ?t2i = "token2id_of tokens B" and ?i2t = "id2token_of tokens B"
  have load: "load_vocab content B = Inr (?t2i, ?i2t)"
    using assms(1) by (simp add: load_vocab_def)
  have "tokens ! i \<in> dom ?t2i"
    using assms(2,3) by (simp add: token2id_of_dom)
  then obtain v where v: "?t2i (tokens ! i) = Some v" by blast
  then obtain k where k: "k < length tokens" "tokens ! k = tokens ! i" "v = B + int k"
      "\<forall>k'. k < k' \<and> k' < length tokens \<longrightarrow> tokens ! k' \<noteq> tokens ! i"
    using token2id_of_range by blast
  have "\<not> k < j" using k(4) assms(3,4) by auto
  with assms(2) have ik: "i < k" by simp
  have ids: "?i2t (B + int i) = Some (tokens ! i)" "?i2t (B + int j) = Some (tokens ! j)"
    using assms(2,3) by (simp_all add: id2token_of_lookup)
  have "?t2i (tokens ! i) \<noteq> Some (B + int i)"
    using v k(3) ik by simp
  with load v k ik ids show ?thesis by blast
qed


theorem load_vocab_inverse_witness:
  "read_tokens [] (file_lines ''the 10\<newline>cat 5\<newline>'') = Inr [''the'', ''cat''] \<and>
   distinct [''the'', ''cat''] \<and>
   fst (projr (load_vocab ''the 10\<newline>cat 5\<newline>'' 4)) ''the'' = Some 4 \<and>
   fst (projr (load_vocab ''the 10\<newline>cat 5\<newline>'' 4)) ''cat'' = Some 5 \<and>
   snd (projr (load_vocab ''the 10\<newline>cat 5\<newline>'' 4)) 4 = Some ''the'' \<and>
   snd (projr (load_vocab ''the 10\<newline>cat 5\<newline>'' 4)) 5 = Some ''cat'' \<and>
   dom (snd (projr (load_vocab ''the 10\<newline>cat 5\<newline>'' 4))) = {4 ..< 6}"
proof -
  let ?c = "''the 10\<newline>cat 5\<newline>''" and ?ts = "[''the'', ''cat'']"
  have r: "read_tokens [] (file_lines ?c) = Inr ?ts"
    by (simp add: text_eval)
  have d: "distinct ?ts" by simp
  from load_vocab_inverse [OF r d, of 4] obtain token2id id2token where
    load: "load_vocab ?c 4 = Inr (token2id, id2token)" and
    dom: "dom id2token = {4 ..< 4 + int (length ?ts)}" and
    ids: "\<forall>k < length ?ts. token2id (?ts ! k) = Some (4 + int k) \<and>
            id2token (4 + int k) = Some (?ts ! k)"
    by blast
  from ids have "token2id (?ts ! 0) = Some (4 + int 0) \<and> id2token (4 + int 0) = Some (?ts ! 0)"
    by (metis length_Cons zero_less_Suc)
  moreover from ids
  have "token2id (?ts ! 1) = Some (4 + int 1) \<and> id2token (4 + int 1) = Some (?ts ! 1)"
    by (metis One_nat_def length_Cons lessI list.size(3))
  ultimately show ?thesis using r load dom by simp
qed

theorem load_vocab_parse_error_witness:
  "load_vocab ''a 1\<newline>a\<newline>'' 0 = Inl ValueError \<and>
   \<not> isl (load_vocab ''the 10\<newline>cat 5\<newline>'' 4)"
proof -
  have "\<exists>line \<in> set (file_lines ''a 1\<newline>a\<newline>'').
          length (str_split (replace_newline line)) \<noteq> 2"
    by (simp add: text_eval)
  with load_vocab_parse_error [of "''a 1\<newline>a\<newline>''" 0]
  have bad: "load_vocab ''a 1\<newline>a\<newline>'' 0 = Inl ValueError" by blast
  have "\<forall>line \<in> set (file_lines ''the 10\<newline>cat 5\<newline>'').
          length (str_split (replace_newline line)) = 2"
    by (simp add: text_eval)
  with load_vocab_parse_error [of "''the 10\<newline>cat 5\<newline>''" 4]
  obtain vocabs where "load_vocab ''the 10\<newline>cat 5\<newline>'' 4 = Inr vocabs" by blast
  with bad show ?thesis by simp
qed

theorem load_vocab_duplicate_tokens_witness:
  "read_tokens [] (file_lines ''a 1\<newline>b 7\<newline>a 2\<newline>'') = Inr [''a'', ''b'', ''a''] \<and>
   fst (projr (load_vocab ''a 1\<newline>b 7\<newline>a 2\<newline>'' 4)) ''a'' = Some 6 \<and>
   snd (projr (load_vocab ''a 1\<newline>b 7\<newline>a 2\<newline>'' 4)) 4 = Some ''a'' \<and>
   snd (projr (load_vocab ''a 1\<newline>b 7\<newline>a 2\<newline>'' 4)) 6 = Some ''a''"
proof -
  let ?c = "''a 1\<newline>b 7\<newline>a 2\<newline>''" and ?ts = "[''a'', ''b'', ''a'']"
  have r: "read_tokens [] (file_lines ?c) = Inr ?ts"
    by (simp add: text_eval)
  have "(0::nat) < 2" "2 < length ?ts" "?ts ! 0 = ?ts ! 2" by simp_all
  from load_vocab_duplicate_tokens [OF r this, of 4] obtain token2id id2token k where
    load: "load_vocab ?c 4 = Inr (token2id, id2token)" and
    k: "0 < k" "k < length ?ts" "?ts ! k = ?ts ! 0" "token2id (?ts ! 0) = Some (4 + int k)" and
    ids: "id2token (4 + int 0) = Some (?ts ! 0)" "id2token (4 + int 2) = Some (?ts ! 2)"
    by blast
  from k(1,2,3) have "k = 2"
    by (cases k) (auto simp add: nth_Cons' split: if_splits)
  with k(4) ids load r show ?thesis by simp
qed

section \<open>The batch assembler\<close>

lemma fold_max_lengths:
  "xs \<noteq> [] \<Longrightarrow> fold max xs (0::nat) = Max (set xs)"
proof -
  assume ne: "xs \<noteq> []"
  have "fold max xs (0::nat) = Max (set (0 # xs))"
    by (simp only: Max.set_eq_fold)
  also have "\<dots> = max 0 (Max (set xs))"
    using ne by simp
  finally show ?thesis by simp
qed

lemma fold_max_ge: "x \<in> set xs \<Longrightarrow> x \<le> fold max xs (m::nat)"
proof -
  assume "x \<in> set xs"
  have "fold max xs m = Max (set (m # xs))" by (simp only: Max.set_eq_fold)
  with \<open>x \<in> set xs\<close> show ?thesis by simp
qed

text \<open>
  C2. For a non-empty list of N id sequences the batch assembler returns an array whose
  first dimension is the greatest length among the sequences and whose second dimension
  is N, with the list of the N true lengths. The cells are laid out accordingly, and for
  each sequence \<open>i\<close> the entry at a position \<open>t\<close> before its length is its \<open>t\<close>-th id,
  the entry at a position at or after its length is the padding constant.
\<close>

theorem time_major_batch_layout:
  assumes "inputs \<noteq> []"
  shows "shape0 (fst (time_major_batch pad inputs)) = Max (length ` set inputs) \<and>
     shape1 (fst (time_major_batch pad inputs)) = length inputs \<and>
     snd (time_major_batch pad inputs) = map length inputs \<and>
     length (cells (fst (time_major_batch pad inputs))) = Max (length ` set inputs) \<and>
     (\<forall>row \<in> set (cells (fst (time_major_batch pad inputs))). length row = length inputs) \<and>
     (\<forall>i < length inputs. \<forall>t < Max (length ` set inputs).
        cells (fst (time_major_batch pad inputs)) ! t ! i =
          (if t < snd (time_major_batch pad inputs) ! i then inputs ! i ! t else pad))"
proof -
  have m: "fold max (map length inputs) 0 = Max (length ` set inputs)"
    using assms fold_max_lengths [of "map length inputs"] by simp
  show ?thesis
    by (simp add: time_major_batch_def Let_def m)
qed

lemma time_major_batch_column:
  assumes "i < length inputs"
  shows "map (\<lambda>t. cells (fst (time_major_batch pad inputs)) ! t ! i) [0..<length (inputs ! i)]
         = inputs ! i"
proof -
  have "length (inputs ! i) \<le> fold max (map length inputs) 0"
    using assms by (intro fold_max_ge) simp
  then show ?thesis
    using assms by (intro nth_equalityI) (simp_all add: time_major_batch_def Let_def)
qed

section \<open>The loop of the labeled-data pipeline\<close>

lemma labeled_loop_accumulate:
  "\<forall>r \<in> set xs. 3 \<le> length r \<Longrightarrow> int (length tb) + int (length xs) < n \<Longrightarrow>
   labeled_loop pad J n tb lb (xs @ ys) =
   labeled_loop pad J n (tb @ map (\<lambda>r. r ! 0 @ [J] @ r ! 1) xs) (lb @ map (\<lambda>r. r ! 2) xs) ys"
proof (induction xs arbitrary: tb lb)
  case Nil
  then show ?case by simp
next
  case (Cons r xs)
  from Cons.prems have r: "\<not> length r < 3" and small: "\<not> n \<le> int (length tb) + 1"
    by auto
  have step: "labeled_loop pad J n tb lb ((r # xs) @ ys) =
      labeled_loop pad J n (tb @ [r ! 0 @ [J] @ r ! 1]) (lb @ [r ! 2]) (xs @ ys)"
    using r small by (simp add: Let_def)
  have "labeled_loop pad J n (tb @ [r ! 0 @ [J] @ r ! 1]) (lb @ [r ! 2]) (xs @ ys) =
      labeled_loop pad J n ((tb @ [r ! 0 @ [J] @ r ! 1]) @ map (\<lambda>r. r ! 0 @ [J] @ r ! 1) xs)
        ((lb @ [r ! 2]) @ map (\<lambda>r. r ! 2) xs) ys"
    using Cons.prems by (intro Cons.IH) auto
  with step show ?case by simp
qed

lemma labeled_loop_emit:
  "3 \<le> length r \<Longrightarrow> n \<le> int (length tb) + 1 \<Longrightarrow>
   labeled_loop pad J n tb lb (r # ys) =
   ((fst (time_major_batch pad (tb @ [r ! 0 @ [J] @ r ! 1])),
     snd (time_major_batch pad (tb @ [r ! 0 @ [J] @ r ! 1])),
     fst (time_major_batch pad (lb @ [r ! 2])),
     snd (time_major_batch pad (lb @ [r ! 2]))) # fst (labeled_loop pad J n [] [] ys),
    snd (labeled_loop pad J n [] [] ys))"
  by (simp add: Let_def split: prod.splits)

lemma labeled_loop_chunk:
  assumes "\<forall>r \<in> set chunk. 3 \<le> length r" and "1 \<le> n" and "length chunk = nat n"
  shows "labeled_loop pad J n [] [] (chunk @ ys) =
     (chunk_batch pad J chunk # fst (labeled_loop pad J n [] [] ys),
      snd (labeled_loop pad J n [] [] ys))"
proof -
  from assms(2,3) have "chunk \<noteq> []" by auto
  then obtain xs r where chunk: "chunk = xs @ [r]"
    by (metis rev_exhaust)
  with assms have xs: "\<forall>r \<in> set xs. 3 \<le> length r" and r: "3 \<le> length r"
    and len: "int (length xs) + 1 = n"
    by auto
  have "labeled_loop pad J n [] [] (xs @ (r # ys)) =
      labeled_loop pad J n ([] @ map (\<lambda>r. r ! 0 @ [J] @ r ! 1) xs) ([] @ map (\<lambda>r. r ! 2) xs) (r # ys)"
    using xs len by (intro labeled_loop_accumulate) simp_all
  also have "\<dots> = ((fst (time_major_batch pad (map (\<lambda>r. r ! 0 @ [J] @ r ! 1) xs @ [r ! 0 @ [J] @ r ! 1])),
     snd (time_major_batch pad (map (\<lambda>r. r ! 0 @ [J] @ r ! 1) xs @ [r ! 0 @ [J] @ r ! 1])),
     fst (time_major_batch pad (map (\<lambda>r. r ! 2) xs @ [r ! 2])),
     snd (time_major_batch pad (map (\<lambda>r. r ! 2) xs @ [r ! 2]))) # fst (labeled_loop pad J n [] [] ys),
    snd (labeled_loop pad J n [] [] ys))"
    using r len by (simp only: append_Nil) (intro labeled_loop_emit, simp_all)
  finally show ?thesis
    by (simp add: chunk chunk_batch_def split: prod.splits)
qed

lemma labeled_loop_remainder:
  assumes "\<forall>r \<in> set rows. 3 \<le> length r" and "int (length rows) < n"
  shows "labeled_loop pad J n [] [] rows = ([], None)"
  using labeled_loop_accumulate [of rows "[]" n pad J "[]" "[]"] assms by simp

lemma labeled_loop_batches:
  assumes "1 \<le> n"
  shows "\<forall>r \<in> set rows. 3 \<le> length r \<Longrightarrow> length rows div nat n = m \<Longrightarrow>
     labeled_loop pad J n [] [] rows =
       (map (\<lambda>k. chunk_batch pad J (take (nat n) (drop (k * nat n) rows))) [0..<m], None)"
proof (induction m arbitrary: rows)
  case 0
  with assms have "int (length rows) < n"
    by (simp add: div_eq_0_iff)
  with "0.prems"(1) show ?case by (simp add: labeled_loop_remainder)
next
  case (Suc m)
  let ?N = "nat n"
  from assms have N: "0 < ?N" by simp
  from Suc.prems(2) N have ge: "?N \<le> length rows"
    by (metis div_less not_le_imp_less old.nat.distinct(1))
  let ?chunk = "take ?N rows" and ?rest = "drop ?N rows"
  have len: "length ?chunk = ?N" using ge by simp
  have ok1: "\<forall>r \<in> set ?chunk. 3 \<le> length r" using Suc.prems(1) by (meson in_set_takeD)
  have ok2: "\<forall>r \<in> set ?rest. 3 \<le> length r" using Suc.prems(1) by (meson in_set_dropD)
  have "length ?rest div ?N = m"
    using Suc.prems(2) ge N by (simp add: le_div_geq)
  with Suc.IH ok2 have rest: "labeled_loop pad J n [] [] ?rest =
       (map (\<lambda>k. chunk_batch pad J (take ?N (drop (k * ?N) ?rest))) [0..<m], None)"
    by blast
  have "labeled_loop pad J n [] [] (?chunk @ ?rest) =
     (chunk_batch pad J ?chunk # fst (labeled_loop pad J n [] [] ?rest),
      snd (labeled_loop pad J n [] [] ?rest))"
    using ok1 assms len by (rule labeled_loop_chunk)
  then have "labeled_loop pad J n [] [] rows =
     (chunk_batch pad J ?chunk #
        map (\<lambda>k. chunk_batch pad J (take ?N (drop (k * ?N) ?rest))) [0..<m], None)"
    by (simp add: rest)
  also have "map (\<lambda>k. chunk_batch pad J (take ?N (drop (k * ?N) ?rest))) [0..<m] =
     map (\<lambda>k. chunk_batch pad J (take ?N (drop (Suc k * ?N) rows))) [0..<m]"
    by (simp add: add.commute)
  finally show ?case
    by (simp add: map_upt_Suc del: upt_Suc)
qed


lemma chunk_batch_parts:
  "fst (chunk_batch pad J chunk) = fst (time_major_batch pad (map (\<lambda>r. r ! 0 @ [J] @ r ! 1) chunk))"
  "fst (snd (chunk_batch pad J chunk)) = map (\<lambda>r. length (r ! 0 @ [J] @ r ! 1)) chunk"
  "fst (snd (snd (chunk_batch pad J chunk))) = fst (time_major_batch pad (map (\<lambda>r. r ! 2) chunk))"
  "snd (snd (snd (chunk_batch pad J chunk))) = map (\<lambda>r. length (r ! 2)) chunk"
  by (simp_all add: chunk_batch_def time_major_batch_def Let_def comp_def split: prod.splits)

lemma chunk_batch_dims:
  "shape1 (fst (chunk_batch pad J chunk)) = length chunk"
  "length (fst (snd (chunk_batch pad J chunk))) = length chunk"
  "shape1 (fst (snd (snd (chunk_batch pad J chunk)))) = length chunk"
  "length (snd (snd (snd (chunk_batch pad J chunk)))) = length chunk"
  by (simp_all add: chunk_batch_parts) (simp_all add: time_major_batch_def Let_def)

lemma full_chunk_length:
  assumes "0 < N" and "k < length rows div N"
  shows "length (take N (drop (k * N) rows)) = N"
proof -
  from assms(2) have "Suc k \<le> length rows div N" by simp
  then have "Suc k * N \<le> length rows div N * N" by (rule mult_le_mono1)
  also have "\<dots> \<le> length rows" by simp
  finally show ?thesis by simp
qed



lemma full_chunk_nth:
  assumes "0 < N" and "k < length rows div N" and "i < N"
  shows "take N (drop (k * N) rows) ! i = rows ! (k * N + i)"
proof -
  from assms(2) have "Suc k \<le> length rows div N" by simp
  then have "Suc k * N \<le> length rows div N * N" by (rule mult_le_mono1)
  also have "\<dots> \<le> length rows" by simp
  finally have "k * N \<le> length rows" by simp
  with assms(3) show ?thesis by simp
qed

text \<open>
  C3. The example that the pipeline builds from a row with the source ids \<open>S\<close> and the
  target ids \<open>T\<close> is \<open>S\<close>, the join id \<open>J\<close>, then \<open>T\<close>: in the batch that holds the
  row, the true length of its column is \<open>length S + 1 + length T\<close>, and the column read
  up to that length is \<open>S @ [J] @ T\<close>.
\<close>

theorem joined_example:
  assumes "1 \<le> n" and "\<forall>r \<in> set rows. 3 \<le> length r"
    and "k < length rows div nat n" and "i < nat n"
    and "rows ! (k * nat n + i) = [S, T, L]"
  shows "fst (snd (fst (labeled_loop pad J n [] [] rows) ! k)) ! i = length S + 1 + length T \<and>
     map (\<lambda>t. cells (fst (fst (labeled_loop pad J n [] [] rows) ! k)) ! t ! i)
         [0..<fst (snd (fst (labeled_loop pad J n [] [] rows) ! k)) ! i] = S @ [J] @ T"
proof -
  define N where "N = nat n"
  define chunk where "chunk = take N (drop (k * N) rows)"
  define texts where "texts = map (\<lambda>r. r ! 0 @ [J] @ r ! 1) chunk"
  from assms(1) have N: "0 < N" by (simp add: N_def)
  have kN: "k < length rows div N" and iN: "i < N"
    using assms(3,4) by (simp_all add: N_def)
  have len: "length chunk = N"
    unfolding chunk_def using N kN by (rule full_chunk_length)
  have "labeled_loop pad J n [] [] rows =
      (map (\<lambda>k. chunk_batch pad J (take N (drop (k * N) rows))) [0..<length rows div N], None)"
    unfolding N_def using assms(1,2) refl by (rule labeled_loop_batches)
  then have "fst (labeled_loop pad J n [] [] rows) ! k = chunk_batch pad J (take N (drop (k * N) rows))"
    using kN by simp
  then have batch: "fst (labeled_loop pad J n [] [] rows) ! k = chunk_batch pad J chunk"
    by (simp only: chunk_def)
  have "chunk ! i = rows ! (k * N + i)"
    unfolding chunk_def using N kN iN by (rule full_chunk_nth)
  with assms(5) have row: "chunk ! i = [S, T, L]" by (simp add: N_def)
  have i: "i < length texts" using iN len by (simp add: texts_def)
  have joined: "texts ! i = S @ [J] @ T"
    using iN len row by (simp add: texts_def)
  have "fst (snd (chunk_batch pad J chunk)) = map length texts"
    by (simp add: chunk_batch_parts texts_def comp_def)
  with i joined have lens: "fst (snd (chunk_batch pad J chunk)) ! i = length (S @ [J] @ T)"
    by simp
  have "map (\<lambda>t. cells (fst (time_major_batch pad texts)) ! t ! i) [0..<length (texts ! i)]
      = texts ! i"
    using i by (rule time_major_batch_column)
  then have col: "map (\<lambda>t. cells (fst (chunk_batch pad J chunk)) ! t ! i) [0..<length (S @ [J] @ T)]
      = S @ [J] @ T"
    by (simp only: chunk_batch_parts texts_def [symmetric] joined)
  show ?thesis
    unfolding batch lens using col by simp
qed


section \<open>The merged generator and the whole pipeline\<close>

lemma merge_generators_three:
  "merge_generators [a, b, c] = map (\<lambda>(x, y, z). [x, y, z]) (zip a (zip b c))"
proof (induction a arbitrary: b c)
  case Nil
  then show ?case by (simp add: merge_generators.simps [of "[ [], b, c]"])
next
  case (Cons x a)
  show ?case
  proof (cases b)
    case Nil
    then show ?thesis by (simp add: merge_generators.simps [of "[x # a, [], c]"])
  next
    case b: (Cons y b')
    show ?thesis
    proof (cases c)
      case Nil
      then show ?thesis by (simp add: merge_generators.simps [of "[x # a, b, [] ]"])
    next
      case c: (Cons z c')
      have "merge_generators [x # a, y # b', z # c'] = [x, y, z] # merge_generators [a, b', c']"
        by (simp add: merge_generators.simps [of "[x # a, y # b', z # c']"])
      with Cons.IH b c show ?thesis by simp
    qed
  qed
qed

lemma merged_rows_zip:
  "merged_rows source_file target_file label_file text_vocab label_vocab batch_size =
     map (\<lambda>(s, t, l). [line_ecoder_fn text_vocab (replace_newline s),
                        line_ecoder_fn text_vocab (replace_newline t),
                        line_ecoder_fn label_vocab (replace_newline l)])
       (zip (file_lines source_file) (zip (file_lines target_file) (file_lines label_file)))"
  by (simp add: merged_rows_def files_data_generator_def open_file_wrapper_def
      merge_generators_three zip_map_map comp_def split_def zip_map2 zip_map1)

text \<open>
  C6. The merged generator that \<^verbatim>\<open>labeled_data_generator\<close> iterates over yields as many
  rows as the shortest of the three files has lines, and row \<open>i\<close> holds the encoded line
  \<open>i\<close> of the source file, of the target file and of the label file. The lines beyond
  the shortest file are dropped; the model has no other outcome.
\<close>

theorem merged_rows_min:
  "length (merged_rows source_file target_file label_file text_vocab label_vocab batch_size) =
     min (length (file_lines source_file))
       (min (length (file_lines target_file)) (length (file_lines label_file))) \<and>
   (\<forall>i < length (merged_rows source_file target_file label_file text_vocab label_vocab batch_size).
      merged_rows source_file target_file label_file text_vocab label_vocab batch_size ! i =
        [line_ecoder_fn text_vocab (replace_newline (file_lines source_file ! i)),
         line_ecoder_fn text_vocab (replace_newline (file_lines target_file ! i)),
         line_ecoder_fn label_vocab (replace_newline (file_lines label_file ! i))])"
  by (simp add: merged_rows_zip)

lemma merged_rows_three:
  "\<forall>r \<in> set (merged_rows source_file target_file label_file text_vocab label_vocab batch_size).
     3 \<le> length r"
  by (auto simp add: merged_rows_zip)

text \<open>
  C1, as stated for every run: with the batch size 0 and files of two lines the generator
  yields two batches, one after each row, and the components of the first batch have the
  batch dimension 1, not 0.
\<close>

theorem labeled_data_generator_batch_size_zero:
  "length (fst (labeled_data_generator 0 ''a\<newline>b\<newline>'' ''0\<newline>1\<newline>'' ''0\<newline>1\<newline>''
      main_label_vocab main_label_vocab 3 0)) = 2 \<and>
   snd (labeled_data_generator 0 ''a\<newline>b\<newline>'' ''0\<newline>1\<newline>'' ''0\<newline>1\<newline>''
      main_label_vocab main_label_vocab 3 0) = None \<and>
   shape1 (fst (fst (labeled_data_generator 0 ''a\<newline>b\<newline>'' ''0\<newline>1\<newline>'' ''0\<newline>1\<newline>''
      main_label_vocab main_label_vocab 3 0) ! 0)) = 1 \<and>
   fst (snd (fst (labeled_data_generator 0 ''a\<newline>b\<newline>'' ''0\<newline>1\<newline>'' ''0\<newline>1\<newline>''
      main_label_vocab main_label_vocab 3 0) ! 0)) = [3] \<and>
   shape1 (fst (snd (snd (fst (labeled_data_generator 0 ''a\<newline>b\<newline>'' ''0\<newline>1\<newline>'' ''0\<newline>1\<newline>''
      main_label_vocab main_label_vocab 3 0) ! 0)))) = 1 \<and>
   snd (snd (snd (fst (labeled_data_generator 0 ''a\<newline>b\<newline>'' ''0\<newline>1\<newline>'' ''0\<newline>1\<newline>''
      main_label_vocab main_label_vocab 3 0) ! 0))) = [1]"
  by (simp add: labeled_data_generator_def merged_rows_zip text_eval line_ecoder_fn_def
      vocab_encoder_wrapper_def str_items_def dict_get_def unk_id_default_def
      main_label_vocab_def time_major_batch_def Let_def)

text \<open>
  C1, amended. For a batch size of at least one, \<^verbatim>\<open>labeled_data_generator\<close> ends without
  exception and yields one batch for each full run of \<open>batch_size\<close> merged rows: batch
  \<open>k\<close> is assembled from the rows \<open>k * batch_size\<close> up to \<open>(k + 1) * batch_size\<close>
  excluded, all four of its components have the batch dimension \<open>batch_size\<close>, and the
  remainder of fewer than \<open>batch_size\<close> rows gives no batch.
\<close>

theorem labeled_data_generator_batches:
  assumes "1 \<le> batch_size"
  shows "labeled_data_generator pad source_file target_file label_file text_vocab label_vocab
        join_id batch_size =
       (map (\<lambda>k. chunk_batch pad join_id (take (nat batch_size) (drop (k * nat batch_size)
               (merged_rows source_file target_file label_file text_vocab label_vocab batch_size))))
          [0..<length (merged_rows source_file target_file label_file text_vocab label_vocab
                 batch_size) div nat batch_size],
        None) \<and>
     (\<forall>b \<in> set (fst (labeled_data_generator pad source_file target_file label_file text_vocab
                       label_vocab join_id batch_size)).
        int (shape1 (fst b)) = batch_size \<and> int (length (fst (snd b))) = batch_size \<and>
        int (shape1 (fst (snd (snd b)))) = batch_size \<and>
        int (length (snd (snd (snd b)))) = batch_size)"
proof -
  define rows where
    "rows = merged_rows source_file target_file label_file text_vocab label_vocab batch_size"
  define N where "N = nat batch_size"
  from assms have N: "0 < N" and bs: "int N = batch_size" by (simp_all add: N_def)
  have ok: "\<forall>r \<in> set rows. 3 \<le> length r"
    unfolding rows_def by (rule merged_rows_three)
  have run: "labeled_loop pad join_id batch_size [] [] rows =
      (map (\<lambda>k. chunk_batch pad join_id (take N (drop (k * N) rows))) [0..<length rows div N], None)"
    unfolding N_def using assms ok refl by (rule labeled_loop_batches)
  have dims: "int (shape1 (fst b)) = batch_size \<and> int (length (fst (snd b))) = batch_size \<and>
        int (shape1 (fst (snd (snd b)))) = batch_size \<and>
        int (length (snd (snd (snd b)))) = batch_size"
    if "b \<in> set (map (\<lambda>k. chunk_batch pad join_id (take N (drop (k * N) rows)))
                  [0..<length rows div N])" for b
  proof -
    from that obtain k where k: "k < length rows div N"
      and b: "b = chunk_batch pad join_id (take N (drop (k * N) rows))"
      by auto
    have "length (take N (drop (k * N) rows)) = N"
      using N k by (rule full_chunk_length)
    then show ?thesis
      unfolding b chunk_batch_dims by (simp only: bs simp_thms)
  qed
  show ?thesis
    unfolding labeled_data_generator_def rows_def [symmetric] N_def [symmetric] run
    using dims by simp
qed


section \<open>The file reader as the pipeline uses it\<close>

lemma file_lines_from_line:
  "newline \<notin> set l \<Longrightarrow>
   file_lines_from cur (l @ newline # cs) = (cur @ l @ [newline]) # file_lines_from [] cs"
  by (induction l arbitrary: cur) auto

lemma file_lines_from_last:
  "newline \<notin> set rest \<Longrightarrow>
   file_lines_from cur rest = (if cur @ rest = [] then [] else [cur @ rest])"
  by (induction rest arbitrary: cur) auto

lemma file_lines_text:
  assumes "\<forall>l \<in> set ls. newline \<notin> set l" and "newline \<notin> set rest"
  shows "file_lines (concat (map (\<lambda>l. l @ [newline]) ls) @ rest) =
     map (\<lambda>l. l @ [newline]) ls @ (if rest = [] then [] else [rest])"
  using assms(1)
proof (induction ls)
  case Nil
  then show ?case using assms(2) by (simp add: file_lines_def file_lines_from_last)
next
  case (Cons l ls)
  then show ?case
    by (simp add: file_lines_def file_lines_from_line)
qed

lemma replace_newline_line:
  "newline \<notin> set l \<Longrightarrow> replace_newline (l @ [newline]) = l"
  "newline \<notin> set l \<Longrightarrow> replace_newline l = l"
  by (auto simp add: replace_newline_def filter_id_conv)

text \<open>
  C9. The file reader hands each line, as a \<^verbatim>\<open>str\<close> without its newline, to the encoder,
  which looks up every character of it: a line of L characters gives L ids, for each
  character, spaces included, the id that the vocabulary gives to the one-character string,
  or 2 when the vocabulary does not have it. The file is given by its
  lines \<open>ls\<close>, each with its newline, and a last line \<open>rest\<close> without newline.
\<close>

theorem pipeline_encodes_characters:
  assumes "\<forall>l \<in> set ls. newline \<notin> set l" and "newline \<notin> set rest"
  shows "open_file_wrapper (line_ecoder_fn vocab) (concat (map (\<lambda>l. l @ [newline]) ls) @ rest) =
       map (\<lambda>l. map (\<lambda>c. case vocab [c] of Some k \<Rightarrow> k | None \<Rightarrow> 2) l)
         (ls @ (if rest = [] then [] else [rest])) \<and>
     map length
       (open_file_wrapper (line_ecoder_fn vocab) (concat (map (\<lambda>l. l @ [newline]) ls) @ rest)) =
       map length (ls @ (if rest = [] then [] else [rest]))"
proof -
  have enc: "line_ecoder_fn vocab l = map (\<lambda>c. case vocab [c] of Some k \<Rightarrow> k | None \<Rightarrow> 2) l"
    for l
    by (simp add: line_ecoder_fn_def vocab_encoder_wrapper_def str_items_def unk_id_default_def
        dict_get_def comp_def)
  have "open_file_wrapper (line_ecoder_fn vocab) (concat (map (\<lambda>l. l @ [newline]) ls) @ rest) =
      map (\<lambda>line. line_ecoder_fn vocab (replace_newline line))
        (map (\<lambda>l. l @ [newline]) ls @ (if rest = [] then [] else [rest]))"
    by (simp only: open_file_wrapper_def file_lines_text [OF assms])
  also have "\<dots> = map (\<lambda>l. line_ecoder_fn vocab l) (ls @ (if rest = [] then [] else [rest]))"
    using assms by (simp add: replace_newline_line comp_def)
  finally have eq: "open_file_wrapper (line_ecoder_fn vocab)
        (concat (map (\<lambda>l. l @ [newline]) ls) @ rest) =
      map (\<lambda>l. map (\<lambda>c. case vocab [c] of Some k \<Rightarrow> k | None \<Rightarrow> 2) l)
        (ls @ (if rest = [] then [] else [rest]))"
    by (simp add: enc)
  show ?thesis
    unfolding eq by (simp add: comp_def)
qed


section \<open>Concrete runs\<close>

theorem time_major_batch_layout_witness:
  "shape0 (fst (time_major_batch 0 [ [1, 2, 3], [4, 5, 6, 7, 8] ])) = 5 \<and>
   shape1 (fst (time_major_batch 0 [ [1, 2, 3], [4, 5, 6, 7, 8] ])) = 2 \<and>
   snd (time_major_batch 0 [ [1, 2, 3], [4, 5, 6, 7, 8] ]) = [3, 5] \<and>
   cells (fst (time_major_batch 0 [ [1, 2, 3], [4, 5, 6, 7, 8] ])) ! 2 ! 0 = 3 \<and>
   cells (fst (time_major_batch 0 [ [1, 2, 3], [4, 5, 6, 7, 8] ])) ! 3 ! 0 = 0 \<and>
   cells (fst (time_major_batch 0 [ [1, 2, 3], [4, 5, 6, 7, 8] ])) ! 4 ! 0 = 0"
proof -
  let ?inputs = "[ [1, 2, 3], [4, 5, 6, 7, 8 :: int] ]"
  have ne: "?inputs \<noteq> []" by simp
  have m: "Max (length ` set ?inputs) = 5" by simp
  note lay = time_major_batch_layout [OF ne, of 0, unfolded m]
  from lay have shape: "shape0 (fst (time_major_batch 0 ?inputs)) = 5"
    "shape1 (fst (time_major_batch 0 ?inputs)) = length ?inputs"
    "snd (time_major_batch 0 ?inputs) = map length ?inputs"
    by blast+
  from lay have cell: "\<forall>i < length ?inputs. \<forall>t < 5.
      cells (fst (time_major_batch 0 ?inputs)) ! t ! i =
        (if t < snd (time_major_batch 0 ?inputs) ! i then ?inputs ! i ! t else 0)"
    by blast
  have i: "0 < length ?inputs" by simp
  have t: "(2::nat) < 5" "(3::nat) < 5" "(4::nat) < 5" by simp_all
  from cell i t(1) have c2: "cells (fst (time_major_batch 0 ?inputs)) ! 2 ! 0 =
      (if 2 < snd (time_major_batch 0 ?inputs) ! 0 then ?inputs ! 0 ! 2 else 0)" by blast
  from cell i t(2) have c3: "cells (fst (time_major_batch 0 ?inputs)) ! 3 ! 0 =
      (if 3 < snd (time_major_batch 0 ?inputs) ! 0 then ?inputs ! 0 ! 3 else 0)" by blast
  from cell i t(3) have c4: "cells (fst (time_major_batch 0 ?inputs)) ! 4 ! 0 =
      (if 4 < snd (time_major_batch 0 ?inputs) ! 0 then ?inputs ! 0 ! 4 else 0)" by blast
  show ?thesis
    unfolding c2 c3 c4 shape by simp
qed

theorem joined_example_witness:
  "fst (snd (fst (labeled_loop 0 3 2 [] []
      [ [ [5, 6], [7], [2] ], [ [8], [9, 4], [3] ], [ [5], [5], [2] ] ]) ! 0)) ! 1 = 4 \<and>
   map (\<lambda>t. cells (fst (fst (labeled_loop 0 3 2 [] []
      [ [ [5, 6], [7], [2] ], [ [8], [9, 4], [3] ], [ [5], [5], [2] ] ]) ! 0)) ! t ! 1) [0..<4]
     = [8, 3, 9, 4]"
proof -
  let ?rows = "[ [ [5, 6], [7], [2] ], [ [8], [9, 4], [3] ], [ [5], [5], [2 :: int] ] ]"
  have h: "(1::int) \<le> 2" "\<forall>r \<in> set ?rows. 3 \<le> length r" "0 < length ?rows div nat 2"
    "1 < nat 2" "?rows ! (0 * nat 2 + 1) = [ [8], [9, 4], [3] ]"
    by simp_all
  have a: "length [8::int] + 1 + length [9, 4::int] = 4" by simp
  have b: "[8] @ [3] @ [9, 4] = [8, 3, 9, 4::int]" by simp
  note j = joined_example [OF h, of 0 3, unfolded a b]
  from j have c1: "fst (snd (fst (labeled_loop 0 3 2 [] [] ?rows) ! 0)) ! 1 = 4"
    by (rule conjunct1)
  from j have "map (\<lambda>t. cells (fst (fst (labeled_loop 0 3 2 [] [] ?rows) ! 0)) ! t ! 1)
      [0..<fst (snd (fst (labeled_loop 0 3 2 [] [] ?rows) ! 0)) ! 1] = [8, 3, 9, 4]"
    by (rule conjunct2)
  then have c2: "map (\<lambda>t. cells (fst (fst (labeled_loop 0 3 2 [] [] ?rows) ! 0)) ! t ! 1)
      [0..<4] = [8, 3, 9, 4]"
    by (simp only: c1)
  from c1 c2 show ?thesis by (rule conjI)
qed

theorem merged_rows_min_witness:
  "length (merged_rows ''ab\<newline>c\<newline>d\<newline>'' ''x\<newline>yz\<newline>'' ''0\<newline>1\<newline>0\<newline>''
      Map.empty main_label_vocab 2) = 2 \<and>
   merged_rows ''ab\<newline>c\<newline>d\<newline>'' ''x\<newline>yz\<newline>'' ''0\<newline>1\<newline>0\<newline>''
      Map.empty main_label_vocab 2 ! 1 = [ [2], [2, 2], [3] ]"
proof -
  let ?rows = "merged_rows ''ab\<newline>c\<newline>d\<newline>'' ''x\<newline>yz\<newline>'' ''0\<newline>1\<newline>0\<newline>''
      Map.empty main_label_vocab 2"
  note m = merged_rows_min [of "''ab\<newline>c\<newline>d\<newline>''" "''x\<newline>yz\<newline>''"
      "''0\<newline>1\<newline>0\<newline>''" Map.empty main_label_vocab 2]
  from m have len: "length ?rows = 2" by (simp add: text_eval)
  then have "1 < length ?rows" by simp
  with m have "?rows ! 1 =
      [line_ecoder_fn Map.empty (replace_newline (file_lines ''ab\<newline>c\<newline>d\<newline>'' ! 1)),
       line_ecoder_fn Map.empty (replace_newline (file_lines ''x\<newline>yz\<newline>'' ! 1)),
       line_ecoder_fn main_label_vocab (replace_newline (file_lines ''0\<newline>1\<newline>0\<newline>'' ! 1))]"
    by blast
  then have "?rows ! 1 = [ [2], [2, 2], [3] ]"
    by (simp add: text_eval line_ecoder_fn_def vocab_encoder_wrapper_def str_items_def
        dict_get_def unk_id_default_def main_label_vocab_def)
  with len show ?thesis by simp
qed

theorem labeled_data_generator_batches_witness:
  "(1::int) \<le> 2 \<and>
   snd (labeled_data_generator 0 ''ab\<newline>c\<newline>d\<newline>'' ''x\<newline>yz\<newline>w\<newline>'' ''0\<newline>1\<newline>0\<newline>''
      Map.empty main_label_vocab 3 2) = None \<and>
   length (fst (labeled_data_generator 0 ''ab\<newline>c\<newline>d\<newline>'' ''x\<newline>yz\<newline>w\<newline>'' ''0\<newline>1\<newline>0\<newline>''
      Map.empty main_label_vocab 3 2)) = 1"
proof -
  have h: "(1::int) \<le> 2" by simp
  have len: "length (merged_rows ''ab\<newline>c\<newline>d\<newline>'' ''x\<newline>yz\<newline>w\<newline>'' ''0\<newline>1\<newline>0\<newline>''
      Map.empty main_label_vocab 2) = 3"
    by (simp add: merged_rows_zip text_eval)
  from labeled_data_generator_batches [OF h, of 0 "''ab\<newline>c\<newline>d\<newline>''" "''x\<newline>yz\<newline>w\<newline>''"
      "''0\<newline>1\<newline>0\<newline>''" Map.empty main_label_vocab 3]
  show ?thesis by (simp add: len)
qed

theorem pipeline_encodes_characters_witness:
  "open_file_wrapper (line_ecoder_fn [''the'' \<mapsto> 4, ''t'' \<mapsto> 7, '' '' \<mapsto> 9]) ''the t\<newline>cat''
     = [ [7, 2, 2, 9, 7], [2, 2, 7] ]"
proof -
  let ?V = "[''the'' \<mapsto> 4, ''t'' \<mapsto> 7, '' '' \<mapsto> (9::int)]"
  have h: "\<forall>l \<in> set [''the t'']. newline \<notin> set l" "newline \<notin> set ''cat''"
    by (simp_all add: newline_def)
  from pipeline_encodes_characters [OF h, of ?V] show ?thesis
    by (simp add: newline_def)
qed

end
